theory Spec2Isabelle
  imports Main "HOL-Library.Product_Lexorder"
begin

section \<open>Data model of \<open>datastore.py\<close>\<close>

text \<open>
  Timestamps are the values of \<open>datetime.now()\<close> as integers, counted in microseconds
  (the resolution of Python's \<open>datetime\<close>); \<open>timedelta(seconds=n)\<close> is \<open>n * 1000000\<close>.
  The store keeps a datetime as whole milliseconds: a document holds the reading with
  the microseconds below the millisecond dropped (\<open>ms_trunc\<close>).
  Identifiers are the strings \<open>str(recipe_uri)\<close> kept in the \<open>uri\<close> field; \<open>str\<close> and
  \<open>parse_url\<close> are taken as the identity on them.
\<close>

type_synonym timestamp = int

definition td_seconds :: "int \<Rightarrow> int" where
  "td_seconds n = n * 1000000"

definition ms_trunc :: "timestamp \<Rightarrow> timestamp" where
  "ms_trunc t = (t div 1000) * 1000"

text \<open>The \<open>state\<close> field of a queue document: \<open>"wait"\<close> or \<open>"scrape"\<close>.\<close>

datatype qstate = StWait | StScrape

text \<open>The \<open>act\<close> field of an action document: \<open>"enqueue"\<close>, \<open>"scrape"\<close> or \<open>"finish"\<close>.\<close>

datatype act = ActEnqueue | ActScrape | ActFinish

record qentry =
  uri :: string
  ts :: timestamp
  state :: qstate

record arecord =
  a_uri :: string
  a_ts :: timestamp
  a_act :: act

datatype error = EmptyQueueException | DuplicateKeyError | AttributeError | RuntimeError

datatype logger_handle = Logger

text \<open>
  The part of the process state the queue operations touch: the two collections in their
  natural (insertion) order, the module-level \<open>mutex\<close> (locked or not), and the field
  \<open>self._logger\<close>, which \<open>__init__\<close> sets to \<open>None\<close>.
\<close>

record store =
  queue :: "qentry list"
  action :: "arecord list"
  locked :: bool
  logger :: "logger_handle option"

definition init_store :: store where
  "init_store = \<lparr>queue = [], action = [], locked = False, logger = None\<rparr>"

definition setLogger :: "store \<Rightarrow> logger_handle \<Rightarrow> store" where
  "setLogger s l = s\<lparr>logger := Some l\<rparr>"

section \<open>The collections and their unique indices\<close>

text \<open>
  \<open>_ensure_existence\<close> creates the unique indices \<open>idx_ts\<close> on \<open>(state, ts)\<close> and \<open>idx_uri\<close>
  on \<open>uri\<close> for the queue, and two unique indices on the three fields of an action document.
  A write that would give two documents the same key is rejected with \<open>DuplicateKeyError\<close>
  and changes nothing. The keys are compared as the store keeps them, the \<open>ts\<close> of a new
  document in whole milliseconds.
\<close>

definition queue_insert_one :: "qentry \<Rightarrow> qentry list \<Rightarrow> error + qentry list" where
  "queue_insert_one d q =
     (let d' = d\<lparr>ts := ms_trunc (ts d)\<rparr> in
      if (\<exists>e \<in> set q. uri e = uri d') \<or> (\<exists>e \<in> set q. state e = state d' \<and> ts e = ts d')
      then Inl DuplicateKeyError
      else Inr (q @ [d']))"

definition action_insert_one :: "arecord \<Rightarrow> arecord list \<Rightarrow> error + arecord list" where
  "action_insert_one r a =
     (let r' = r\<lparr>a_ts := ms_trunc (a_ts r)\<rparr> in
      if r' \<in> set a then Inl DuplicateKeyError else Inr (a @ [r']))"

text \<open>\<open>find({"uri": u}).count()\<close>\<close>

definition count_uri :: "string \<Rightarrow> qentry list \<Rightarrow> nat" where
  "count_uri u q = length (filter (\<lambda>e. uri e = u) q)"

text \<open>\<open>find({"state": "wait"})\<close> and its \<open>count()\<close>\<close>

definition find_wait :: "qentry list \<Rightarrow> qentry list" where
  "find_wait q = filter (\<lambda>e. state e = StWait) q"

text \<open>
  \<open>find({"state": "wait"}).sort("ts", ASCENDING).limit(1)\<close>, read by \<open>entries.count() == 0\<close>
  and \<open>entries[0]\<close>: the first waiting document in ascending order of \<open>ts\<close>, if there is one.
\<close>

definition oldest_wait :: "qentry list \<Rightarrow> qentry option" where
  "oldest_wait q = (case sort_key ts (find_wait q) of [] \<Rightarrow> None | e # _ \<Rightarrow> Some e)"

text \<open>The first document with the given \<open>uri\<close> gets the new state.\<close>

fun set_first :: "string \<Rightarrow> qstate \<Rightarrow> qentry list \<Rightarrow> qentry list" where
  "set_first u st [] = []"
| "set_first u st (e # q) =
     (if uri e = u then e\<lparr>state := st\<rparr> # q else e # set_first u st q)"

text \<open>
  \<open>update_one({"uri": u}, {"$set": {"state": st}})\<close>: no document matches, nothing happens;
  the document already has the state, nothing is written; otherwise the write is checked
  against \<open>idx_ts\<close>.
\<close>

definition queue_update_one :: "string \<Rightarrow> qstate \<Rightarrow> qentry list \<Rightarrow> error + qentry list" where
  "queue_update_one u st q =
     (case find (\<lambda>e. uri e = u) q of
        None \<Rightarrow> Inr q
      | Some e \<Rightarrow>
          if state e = st then Inr q
          else if \<exists>e' \<in> set q. e' \<noteq> e \<and> state e' = st \<and> ts e' = ts e
               then Inl DuplicateKeyError
               else Inr (set_first u st q))"

text \<open>\<open>delete_one({"uri": u})\<close> removes the first matching document.\<close>

fun delete_one :: "string \<Rightarrow> qentry list \<Rightarrow> qentry list" where
  "delete_one u [] = []"
| "delete_one u (e # q) = (if uri e = u then q else e # delete_one u q)"

section \<open>The mutex\<close>

text \<open>
  \<open>mutex.acquire(blocking=True, timeout=3)\<close> returns \<open>True\<close> and locks a free lock; on a
  locked one it returns \<open>False\<close> when the timeout has passed, and the lock stays as it is.
  \<open>mutex.release()\<close> unlocks a locked lock, whoever locked it, and raises \<open>RuntimeError\<close>
  on a free one.
\<close>

definition mutex_acquire :: "store \<Rightarrow> bool \<times> store" where
  "mutex_acquire s = (if locked s then (False, s) else (True, s\<lparr>locked := True\<rparr>))"

definition mutex_release :: "store \<Rightarrow> error + store" where
  "mutex_release s = (if locked s then Inr (s\<lparr>locked := False\<rparr>) else Inl RuntimeError)"

section \<open>The queue operations\<close>

definition is_enqueued :: "store \<Rightarrow> string \<Rightarrow> bool" where
  "is_enqueued s u = (count_uri u (queue s) > 0)"

text \<open>
  \<open>enqueue\<close> (lines 143 to 152). The result is \<open>Some False\<close> for \<open>return False\<close> and
  \<open>None\<close> where the function ends without a \<open>return\<close>. The argument \<open>env\<close> is what other
  clients of the store do to the queue collection between the presence check and the
  insert; the operation run alone has the identity there.
\<close>

definition enqueue_with ::
  "(qentry list \<Rightarrow> qentry list) \<Rightarrow> store \<Rightarrow> timestamp \<Rightarrow> string \<Rightarrow> (error + bool option) \<times> store" where
  "enqueue_with env s now u =
     (if is_enqueued s u then (Inr (Some False), s)
      else
        let s1 = s\<lparr>queue := env (queue s)\<rparr> in
        case queue_insert_one \<lparr>uri = u, ts = now, state = StWait\<rparr> (queue s1) of
          Inl err \<Rightarrow> (Inl err, s1)
        | Inr q' \<Rightarrow>
            (case action_insert_one \<lparr>a_uri = u, a_ts = now, a_act = ActEnqueue\<rparr> (action s1) of
               Inl err \<Rightarrow> (Inl err, s1\<lparr>queue := q'\<rparr>)
             | Inr a' \<Rightarrow> (Inr None, s1\<lparr>queue := q', action := a'\<rparr>)))"

definition enqueue :: "store \<Rightarrow> timestamp \<Rightarrow> string \<Rightarrow> (error + bool option) \<times> store" where
  "enqueue s now u = enqueue_with (\<lambda>q. q) s now u"

text \<open>
  The polling loop of \<open>dequeue\<close> (lines 158 to 169), with its three variables \<open>entry\<close>,
  \<open>now\<close> and \<open>tries_left\<close>. Every pass calls \<open>mutex.acquire\<close> and drops its result.
  \<open>env k\<close> is what other clients do to the queue collection before the attempt made
  with \<open>tries_left = k\<close>.
\<close>

fun dequeue_loop ::
  "(nat \<Rightarrow> qentry list \<Rightarrow> qentry list) \<Rightarrow> nat \<Rightarrow> timestamp \<Rightarrow> store
     \<Rightarrow> qentry option \<times> timestamp \<times> nat \<times> store" where
  "dequeue_loop env 0 now s = (None, now, 0, s)"
| "dequeue_loop env (Suc n) now s =
     (let s1 = snd (mutex_acquire (s\<lparr>queue := env (Suc n) (queue s)\<rparr>)) in
      case oldest_wait (queue s1) of
        None \<Rightarrow> dequeue_loop env n (now + td_seconds 1) s1
      | Some e \<Rightarrow> (Some e, now, Suc n, s1))"

text \<open>
  \<open>dequeue\<close> (lines 154 to 193). The result is \<open>Some u\<close> for \<open>return parse_url(u)\<close> and
  \<open>None\<close> where the function ends without a \<open>return\<close>. \<open>env 0\<close> is what other clients do
  to the queue collection between the last attempt and the final count. The aggregate
  over the states only reads the collection, for the log line.
\<close>

definition dequeue_with ::
  "(nat \<Rightarrow> qentry list \<Rightarrow> qentry list) \<Rightarrow> store \<Rightarrow> timestamp \<Rightarrow> (error + string option) \<times> store" where
  "dequeue_with env s now0 =
     (case dequeue_loop env 10 now0 s of
        (Some e, now, tries_left, s1) \<Rightarrow>
          (case queue_update_one (uri e) StScrape (queue s1) of
             Inl err \<Rightarrow> (Inl err, s1)
           | Inr q' \<Rightarrow>
               (case mutex_release (s1\<lparr>queue := q'\<rparr>) of
                  Inl err \<Rightarrow> (Inl err, s1\<lparr>queue := q'\<rparr>)
                | Inr s2 \<Rightarrow>
                    (case action_insert_one
                            \<lparr>a_uri = uri e, a_ts = now, a_act = ActScrape\<rparr> (action s2) of
                       Inl err \<Rightarrow> (Inl err, s2)
                     | Inr a' \<Rightarrow> (Inr (Some (uri e)), s2\<lparr>action := a'\<rparr>))))
      | (None, now, tries_left, s1) \<Rightarrow>
          (case mutex_release s1 of
             Inl err \<Rightarrow> (Inl err, s1)
           | Inr s2 \<Rightarrow>
               let s3 = s2\<lparr>queue := env 0 (queue s2)\<rparr>;
                   queue_size = length (find_wait (queue s3))
               in (case logger s3 of
                     None \<Rightarrow> (Inl AttributeError, s3)
                   | Some l \<Rightarrow>
                       if queue_size = 0 then (Inl EmptyQueueException, s3)
                       else (Inr None, s3))))"

definition quiet :: "nat \<Rightarrow> qentry list \<Rightarrow> qentry list" where
  "quiet k q = q"

definition dequeue :: "store \<Rightarrow> timestamp \<Rightarrow> (error + string option) \<times> store" where
  "dequeue s now = dequeue_with quiet s now"

text \<open>
  \<open>dequeue_finish\<close> (lines 195 to 208). The two counts are only logged, with the
  module-level \<open>logger\<close>, which always exists.
\<close>

definition dequeue_finish :: "store \<Rightarrow> timestamp \<Rightarrow> string \<Rightarrow> (error + unit) \<times> store" where
  "dequeue_finish s now u =
     (let s1 = s\<lparr>queue := delete_one u (queue s)\<rparr> in
      case action_insert_one \<lparr>a_uri = u, a_ts = now, a_act = ActFinish\<rparr> (action s1) of
        Inl err \<Rightarrow> (Inl err, s1)
      | Inr a' \<Rightarrow> (Inr (), s1\<lparr>action := a'\<rparr>))"

section \<open>Invariant of the unique indices\<close>

definition wf_queue :: "qentry list \<Rightarrow> bool" where
  "wf_queue q = (distinct (map uri q) \<and> distinct (map (\<lambda>e. (state e, ts e)) q))"

definition wf_store :: "store \<Rightarrow> bool" where
  "wf_store s = (wf_queue (queue s) \<and> distinct (action s))"

section \<open>Sequences of calls\<close>







section \<open>Stores used as examples\<close>


text \<open>A lock that another caller holds when \<open>dequeue\<close> is entered.\<close>

definition held_elsewhere :: store where
  "held_elsewhere =
     \<lparr>queue = [\<lparr>uri = ''u1'', ts = 5000, state = StWait\<rparr>],
      action = [], locked = True, logger = None\<rparr>"

text \<open>
  The store after \<open>enqueue(a)\<close>, \<open>dequeue()\<close> and \<open>enqueue(b)\<close> at the readings 5000, 5300
  and 5700, all within one millisecond.
\<close>

definition same_reading :: store where
  "same_reading =
     \<lparr>queue = [\<lparr>uri = ''a'', ts = 5000, state = StScrape\<rparr>,
               \<lparr>uri = ''b'', ts = 5000, state = StWait\<rparr>],
      action = [\<lparr>a_uri = ''a'', a_ts = 5000, a_act = ActEnqueue\<rparr>,
                \<lparr>a_uri = ''a'', a_ts = 5000, a_act = ActScrape\<rparr>,
                \<lparr>a_uri = ''b'', a_ts = 5000, a_act = ActEnqueue\<rparr>],
      locked = False, logger = None\<rparr>"

text \<open>A store with a logger injected and nothing in its collections.\<close>

definition logged_store :: store where
  "logged_store = \<lparr>queue = [], action = [], locked = False, logger = Some Logger\<rparr>"

text \<open>An entry that \<open>dequeue\<close> has taken and \<open>dequeue_finish\<close> has not yet removed.\<close>

definition in_progress :: store where
  "in_progress =
     \<lparr>queue = [\<lparr>uri = ''u1'', ts = 5000, state = StScrape\<rparr>],
      action = [\<lparr>a_uri = ''u1'', a_ts = 5000, a_act = ActEnqueue\<rparr>,
                \<lparr>a_uri = ''u1'', a_ts = 6000, a_act = ActScrape\<rparr>],
      locked = False, logger = None\<rparr>"

text \<open>The store \<open>in_progress\<close> after \<open>dequeue_finish\<close> of \<open>u1\<close> at the reading 9000.\<close>

definition finished_once :: store where
  "finished_once =
     \<lparr>queue = [],
      action = [\<lparr>a_uri = ''u1'', a_ts = 5000, a_act = ActEnqueue\<rparr>,
                \<lparr>a_uri = ''u1'', a_ts = 6000, a_act = ActScrape\<rparr>,
                \<lparr>a_uri = ''u1'', a_ts = 9000, a_act = ActFinish\<rparr>],
      locked = False, logger = None\<rparr>"

text \<open>
  Another client that enqueues \<open>u1\<close>: after the last attempt of a \<open>dequeue\<close> and before its
  final count; between the presence check and the insert of an \<open>enqueue\<close>; before the
  third attempt of a \<open>dequeue\<close> (the one made with \<open>tries_left = 8\<close>).
\<close>

definition late_producer :: "nat \<Rightarrow> qentry list \<Rightarrow> qentry list" where
  "late_producer k q = (if k = 0 then q @ [\<lparr>uri = ''u1'', ts = 4000, state = StWait\<rparr>] else q)"

definition racing_enqueue :: "qentry list \<Rightarrow> qentry list" where
  "racing_enqueue q = q @ [\<lparr>uri = ''u1'', ts = 4000, state = StWait\<rparr>]"

definition producer_before_third :: "nat \<Rightarrow> qentry list \<Rightarrow> qentry list" where
  "producer_before_third k q = (if k = 8 then q @ [\<lparr>uri = ''u1'', ts = 4000, state = StWait\<rparr>] else q)"

section \<open>Reading the audit log\<close>



section \<open>The search and the polling loop\<close>

lemma mutex_acquire_fields:
  "queue (snd (mutex_acquire s)) = queue s"
  "action (snd (mutex_acquire s)) = action s"
  "logger (snd (mutex_acquire s)) = logger s"
  "locked (snd (mutex_acquire s))"
  by (simp_all add: mutex_acquire_def)

lemma snd_mutex_acquire: "snd (mutex_acquire s) = s\<lparr>locked := True\<rparr>"
  by (simp add: mutex_acquire_def)

lemma oldest_wait_None: "oldest_wait q = None \<longleftrightarrow> find_wait q = []"
proof -
  have "sort_key ts (find_wait q) = [] \<longleftrightarrow> find_wait q = []"
    by (metis length_sort length_0_conv)
  then show ?thesis
    by (auto simp: oldest_wait_def split: list.splits)
qed


lemma dequeue_loop_props:
  "dequeue_loop env n now s = (entry, now', left, s1) \<Longrightarrow>
     left \<le> n \<and> now' = now + td_seconds (int n - int left) \<and> action s1 = action s
     \<and> logger s1 = logger s \<and> (0 < n \<longrightarrow> locked s1)
     \<and> (entry = None \<longrightarrow> left = 0) \<and> (\<forall>e. entry = Some e \<longrightarrow> 0 < left \<and> oldest_wait (queue s1) = Some e)"
proof (induction n arbitrary: now s)
  case 0
  then show ?case by (auto simp: td_seconds_def)
next
  case (Suc n)
  let ?s1 = "snd (mutex_acquire (s\<lparr>queue := env (Suc n) (queue s)\<rparr>))"
  show ?case
  proof (cases "oldest_wait (queue ?s1)")
    case None
    with Suc.prems have rec: "dequeue_loop env n (now + td_seconds 1) ?s1 = (entry, now', left, s1)"
      by (simp add: Let_def)
    from Suc.IH[OF rec] have ih: "left \<le> n" "now' = now + td_seconds 1 + td_seconds (int n - int left)"
      "action s1 = action ?s1" "logger s1 = logger ?s1" "0 < n \<longrightarrow> locked s1"
      "entry = None \<longrightarrow> left = 0" "\<forall>e. entry = Some e \<longrightarrow> 0 < left \<and> oldest_wait (queue s1) = Some e"
      by simp_all
    have l: "locked s1"
    proof (cases n)
      case 0
      with rec show ?thesis by (auto simp: mutex_acquire_def)
    next
      case (Suc m)
      with ih(5) show ?thesis by simp
    qed
    from ih l show ?thesis
      by (simp add: mutex_acquire_def td_seconds_def algebra_simps)
  next
    case (Some e)
    with Suc.prems have "entry = Some e" "now' = now" "left = Suc n" "s1 = ?s1"
      by (auto simp: Let_def)
    with Some show ?thesis
      by (simp add: mutex_acquire_def td_seconds_def)
  qed
qed

lemma dequeue_loop_quiet_none:
  "find_wait (queue s) = [] \<Longrightarrow>
   dequeue_loop quiet (Suc n) now s = (None, now + td_seconds (int (Suc n)), 0, s\<lparr>locked := True\<rparr>)"
proof (induction n arbitrary: now s)
  case 0
  then have "oldest_wait (queue s) = None" by (simp add: oldest_wait_None)
  then show ?case by (simp add: quiet_def snd_mutex_acquire td_seconds_def)
next
  case (Suc n)
  then have n: "oldest_wait (queue s) = None" by (simp add: oldest_wait_None)
  have "dequeue_loop quiet (Suc (Suc n)) now s
        = dequeue_loop quiet (Suc n) (now + td_seconds 1) (s\<lparr>locked := True\<rparr>)"
    using n by (simp add: quiet_def snd_mutex_acquire)
  also have "\<dots> = (None, now + td_seconds 1 + td_seconds (int (Suc n)), 0, s\<lparr>locked := True\<rparr>)"
    using Suc.IH[of "s\<lparr>locked := True\<rparr>" "now + td_seconds 1"] Suc.prems by simp
  finally show ?case by (simp add: td_seconds_def algebra_simps)
qed

lemma dequeue_loop_quiet_some:
  "oldest_wait (queue s) = Some e \<Longrightarrow>
   dequeue_loop quiet (Suc n) now s = (Some e, now, Suc n, s\<lparr>locked := True\<rparr>)"
  by (simp add: quiet_def snd_mutex_acquire)

section \<open>Dequeue run alone\<close>

lemma dequeue_found:
  assumes "oldest_wait (queue s) = Some e"
  shows "dequeue s now =
     (case queue_update_one (uri e) StScrape (queue s) of
        Inl err \<Rightarrow> (Inl err, s\<lparr>locked := True\<rparr>)
      | Inr q' \<Rightarrow>
          (case action_insert_one \<lparr>a_uri = uri e, a_ts = now, a_act = ActScrape\<rparr> (action s) of
             Inl err \<Rightarrow> (Inl err, s\<lparr>queue := q', locked := False\<rparr>)
           | Inr a' \<Rightarrow> (Inr (Some (uri e)), s\<lparr>queue := q', action := a', locked := False\<rparr>)))"
proof -
  have "dequeue_loop quiet 10 now s = (Some e, now, 10, s\<lparr>locked := True\<rparr>)"
    using dequeue_loop_quiet_some[OF assms, of 9 now] by (simp add: eval_nat_numeral)
  then show ?thesis
    by (simp add: dequeue_def dequeue_with_def mutex_release_def split: sum.splits)
qed

lemma dequeue_miss:
  assumes "find_wait (queue s) = []"
  shows "dequeue s now =
     (case logger s of
        None \<Rightarrow> (Inl AttributeError, s\<lparr>locked := False\<rparr>)
      | Some l \<Rightarrow> (Inl EmptyQueueException, s\<lparr>locked := False\<rparr>))"
proof -
  have "dequeue_loop quiet 10 now s = (None, now + td_seconds 10, 0, s\<lparr>locked := True\<rparr>)"
    using dequeue_loop_quiet_none[OF assms, of 9 now] by (simp add: eval_nat_numeral)
  then show ?thesis
    using assms
    by (simp add: dequeue_def dequeue_with_def mutex_release_def quiet_def split: option.splits)
qed


lemma set_first_wf:
  "distinct (map uri q) \<Longrightarrow> e \<in> set q \<Longrightarrow>
   set_first (uri e) st q = map (\<lambda>x. if x = e then x\<lparr>state := st\<rparr> else x) q"
proof (induction q)
  case Nil
  then show ?case by simp
next
  case (Cons a q)
  show ?case
  proof (cases "a = e")
    case True
    with Cons.prems have "\<forall>x \<in> set q. x \<noteq> e" by (auto simp: image_iff)
    then have "map (\<lambda>x. if x = e then x\<lparr>state := st\<rparr> else x) q = q"
      by (induction q) auto
    with True show ?thesis by simp
  next
    case False
    with Cons.prems have "e \<in> set q" "uri a \<noteq> uri e" by (auto simp: image_iff)
    with Cons show ?thesis using False by simp
  qed
qed



section \<open>First in, first out\<close>









section \<open>Misses, removal and the audit log\<close>

lemma dequeue_with_miss:
  assumes "dequeue_loop env 10 now s = (None, now', left, s1)" and "logger s = Some l"
  shows "dequeue_with env s now =
     (if find_wait (env 0 (queue s1)) = [] then Inl EmptyQueueException else Inr None,
      s1\<lparr>queue := env 0 (queue s1), locked := False\<rparr>)
     \<and> left = 0 \<and> now' = now + td_seconds 10"
proof -
  from dequeue_loop_props[OF assms(1)] have p: "left = 0" "now' = now + td_seconds (int 10 - int left)"
      "logger s1 = logger s" "locked s1"
    by simp_all
  show ?thesis
    using assms p by (simp add: dequeue_with_def mutex_release_def Let_def)
qed

lemma delete_one_distinct:
  "distinct (map uri q) \<Longrightarrow> delete_one u q = filter (\<lambda>e. uri e \<noteq> u) q"
proof (induction q)
  case Nil
  then show ?case by simp
next
  case (Cons a q)
  show ?case
  proof (cases "uri a = u")
    case True
    with Cons.prems have "\<forall>e \<in> set q. uri e \<noteq> u" by (auto simp: image_iff)
    then have "filter (\<lambda>e. uri e \<noteq> u) q = q" by (simp add: filter_id_conv)
    with True show ?thesis by simp
  next
    case False
    with Cons show ?thesis by simp
  qed
qed

lemma delete_one_absent: "count_uri u q = 0 \<Longrightarrow> delete_one u q = q"
  by (induction q) (auto simp: count_uri_def split: if_splits)

lemma dequeue_with_found:
  assumes "dequeue_with env s now = (Inr (Some u), s')"
    and "dequeue_loop env 10 now s = (entry, now', left, s1)"
  shows "0 < left \<and> left \<le> 10 \<and> now' = now + td_seconds (10 - int left)
         \<and> action s' = action s @ [\<lparr>a_uri = u, a_ts = ms_trunc now', a_act = ActScrape\<rparr>]"
proof -
  from dequeue_loop_props[OF assms(2)]
  have p: "left \<le> 10" "now' = now + td_seconds (int 10 - int left)" "action s1 = action s"
    "locked s1" "entry = None \<longrightarrow> left = 0" "\<forall>e. entry = Some e \<longrightarrow> 0 < left"
    by simp_all
  show ?thesis
  proof (cases entry)
    case None
    with assms show ?thesis
      by (simp add: dequeue_with_def mutex_release_def Let_def split: sum.splits option.splits if_splits)
  next
    case (Some e)
    with assms p show ?thesis
      by (auto simp: dequeue_with_def mutex_release_def action_insert_one_def Let_def
          split: sum.splits if_splits)
  qed
qed

lemma pbt_loop: "dequeue_loop producer_before_third 10 100 init_store =
   (Some \<lparr>uri = ''u1'', ts = 4000, state = StWait\<rparr>, 100 + td_seconds 2, 8,
    \<lparr>queue = [\<lparr>uri = ''u1'', ts = 4000, state = StWait\<rparr>], action = [], locked = True, logger = None\<rparr>)"
  by (simp add: producer_before_third_def init_store_def eval_nat_numeral
      mutex_acquire_def oldest_wait_def find_wait_def td_seconds_def)






lemma dequeue_success_action:
  assumes "dequeue s now = (Inr (Some u), s')"
  shows "action s' = action s @ [\<lparr>a_uri = u, a_ts = ms_trunc now, a_act = ActScrape\<rparr>]"
proof (cases "oldest_wait (queue s)")
  case None
  then have "find_wait (queue s) = []" by (simp add: oldest_wait_None)
  from dequeue_miss[OF this, of now] assms show ?thesis by (simp split: option.splits)
next
  case (Some e)
  from dequeue_found[OF Some, of now] assms show ?thesis
    by (auto simp: action_insert_one_def Let_def split: sum.splits if_splits)
qed


section \<open>The operations keep the unique indices\<close>

text \<open>
  A store whose collections satisfy their unique indices stays so under the three
  operations, whether they return or raise; the empty store of \<open>__init__\<close> is one.
\<close>

lemma wf_store_init: "wf_store init_store"
  by (simp add: wf_store_def wf_queue_def init_store_def)

lemma wf_queue_insert_one:
  assumes "wf_queue q" and "queue_insert_one d q = Inr q'"
  shows "wf_queue q'"
proof -
  let ?d = "d\<lparr>ts := ms_trunc (ts d)\<rparr>"
  from assms(2) have q': "q' = q @ [?d]"
    and a: "\<not> (\<exists>e \<in> set q. uri e = uri ?d)"
    and b: "\<not> (\<exists>e \<in> set q. state e = state ?d \<and> ts e = ts ?d)"
    by (auto simp: queue_insert_one_def Let_def split: if_splits)
  from a have "uri ?d \<notin> uri ` set q" by (auto simp: image_iff)
  moreover from b have "(state ?d, ts ?d) \<notin> (\<lambda>e. (state e, ts e)) ` set q"
    by (auto simp: image_iff)
  ultimately show ?thesis using assms(1) by (simp add: wf_queue_def q')
qed

lemma wf_queue_delete_one: "wf_queue q \<Longrightarrow> wf_queue (delete_one u q)"
  by (simp add: wf_queue_def delete_one_distinct distinct_map_filter)

lemma wf_queue_update_one:
  assumes wf: "wf_queue q" and upd: "queue_update_one u st q = Inr q'"
  shows "wf_queue q'"
proof (cases "find (\<lambda>e. uri e = u) q")
  case None
  with upd wf show ?thesis by (simp add: queue_update_one_def)
next
  case (Some e)
  then have mem: "e \<in> set q" and ue: "uri e = u"
    by (auto simp: find_Some_iff)
  from wf have d: "distinct (map uri q)" and k: "distinct (map (\<lambda>e. (state e, ts e)) q)"
    by (simp_all add: wf_queue_def)
  show ?thesis
  proof (cases "state e = st")
    case True
    with upd Some wf show ?thesis by (simp add: queue_update_one_def)
  next
    case False
    with upd Some have free: "\<forall>e' \<in> set q. e' \<noteq> e \<longrightarrow> \<not> (state e' = st \<and> ts e' = ts e)"
      and q': "q' = set_first u st q"
      by (auto simp: queue_update_one_def split: if_splits)
    let ?f = "\<lambda>x. if x = e then x\<lparr>state := st\<rparr> else x"
    have q'': "q' = map ?f q" using q' set_first_wf[OF d mem, of st] ue by simp
    have u: "map uri q' = map uri q" by (simp add: q'' comp_def)
    have dq: "distinct q" using d by (rule distinct_map[THEN iffD1, THEN conjunct1])
    have inj: "inj_on (\<lambda>x. (state (?f x), ts (?f x))) (set q)"
    proof (rule inj_onI)
      fix x y assume x: "x \<in> set q" and y: "y \<in> set q"
        and eq: "(state (?f x), ts (?f x)) = (state (?f y), ts (?f y))"
      from k have ik: "inj_on (\<lambda>e. (state e, ts e)) (set q)" by (simp add: distinct_map)
      show "x = y"
      proof (cases "x = e")
        case xe: True
        show ?thesis
        proof (cases "y = e")
          case True with xe show ?thesis by simp
        next
          case ye: False
          with eq xe have "state y = st \<and> ts y = ts e" by simp
          with free y ye show ?thesis by blast
        qed
      next
        case xe: False
        show ?thesis
        proof (cases "y = e")
          case ye: True
          with eq xe have "state x = st \<and> ts x = ts e" by simp
          with free x xe show ?thesis by blast
        next
          case False
          with xe eq have "(state x, ts x) = (state y, ts y)" by simp
          with ik x y show ?thesis by (auto dest: inj_onD)
        qed
      qed
    qed
    have "map (\<lambda>e. (state e, ts e)) q' = map (\<lambda>x. (state (?f x), ts (?f x))) q"
      by (simp add: q'' comp_def)
    moreover have "distinct (map (\<lambda>x. (state (?f x), ts (?f x))) q)"
      using dq inj by (simp add: distinct_map)
    ultimately show ?thesis using d u by (simp add: wf_queue_def)
  qed
qed

lemma distinct_action_insert_one:
  "distinct a \<Longrightarrow> action_insert_one r a = Inr a' \<Longrightarrow> distinct a'"
  by (auto simp: action_insert_one_def Let_def split: if_splits)

lemma wf_store_enqueue: "wf_store s \<Longrightarrow> wf_store (snd (enqueue s now u))"
  by (auto simp: wf_store_def enqueue_def enqueue_with_def Let_def
      split: sum.splits dest: wf_queue_insert_one distinct_action_insert_one)

lemma wf_store_dequeue_finish: "wf_store s \<Longrightarrow> wf_store (snd (dequeue_finish s now u))"
  by (auto simp: wf_store_def dequeue_finish_def Let_def wf_queue_delete_one
      split: sum.splits dest: distinct_action_insert_one)

lemma wf_store_dequeue: "wf_store s \<Longrightarrow> wf_store (snd (dequeue s now))"
proof (cases "oldest_wait (queue s)")
  case None
  assume "wf_store s"
  moreover from None have "find_wait (queue s) = []" by (simp add: oldest_wait_None)
  ultimately show ?thesis
    by (simp add: dequeue_miss wf_store_def split: option.splits)
next
  case (Some e)
  assume "wf_store s"
  then show ?thesis
    by (auto simp: dequeue_found[OF Some] wf_store_def
      split: sum.splits dest: wf_queue_update_one distinct_action_insert_one)
qed

section \<open>The timestamp of the scrape record\<close>

text \<open>
  The \<open>scrape\<close> record of a \<open>dequeue\<close> that returns an identifier holds, in whole
  milliseconds, the reading taken on entry plus one second for each empty attempt before
  the successful one: ten minus the final \<open>tries_left\<close>, since only an empty attempt
  decrements it. The clock is read once, on entry.
\<close>

lemma scrape_record_timestamp:
  assumes "dequeue_with env s now = (Inr (Some u), s')"
  shows "case dequeue_loop env 10 now s of (entry, now', left, s1) \<Rightarrow>
        0 < left \<and> left \<le> 10
        \<and> action s' = action s @
             [\<lparr>a_uri = u, a_ts = ms_trunc (now + td_seconds (10 - int left)), a_act = ActScrape\<rparr>]"
proof -
  obtain entry now' left s1 where r: "dequeue_loop env 10 now s = (entry, now', left, s1)"
    by (metis prod_cases4)
  from dequeue_with_found[OF assms r] show ?thesis by (simp add: r)
qed

lemma scrape_record_after_two_misses:
  "dequeue_with producer_before_third init_store 100 =
     (Inr (Some ''u1''),
      \<lparr>queue = [\<lparr>uri = ''u1'', ts = 4000, state = StScrape\<rparr>],
       action = [\<lparr>a_uri = ''u1'', a_ts = 2000000, a_act = ActScrape\<rparr>],
       locked = False, logger = None\<rparr>)"
  by (simp add: dequeue_with_def pbt_loop queue_update_one_def mutex_release_def
      action_insert_one_def td_seconds_def ms_trunc_def)


section \<open>Claims\<close>




text \<open>
  Claim C2. \<open>enqueue\<close> never returns \<open>True\<close>: with no entry for the identifier it inserts
  the two documents and ends without a \<open>return\<close>, so the caller gets \<open>None\<close>; the second
  call returns \<open>False\<close> and changes nothing.
\<close>

theorem enqueue_never_returns_True:
  "fst (enqueue s now u) \<noteq> Inr (Some True)
   \<and> enqueue init_store 5000 ''u1'' =
       (Inr None,
        \<lparr>queue = [\<lparr>uri = ''u1'', ts = 5000, state = StWait\<rparr>],
         action = [\<lparr>a_uri = ''u1'', a_ts = 5000, a_act = ActEnqueue\<rparr>],
         locked = False, logger = None\<rparr>)
   \<and> enqueue
        \<lparr>queue = [\<lparr>uri = ''u1'', ts = 5000, state = StWait\<rparr>],
         action = [\<lparr>a_uri = ''u1'', a_ts = 5000, a_act = ActEnqueue\<rparr>],
         locked = False, logger = None\<rparr> 6000 ''u1'' =
       (Inr (Some False),
        \<lparr>queue = [\<lparr>uri = ''u1'', ts = 5000, state = StWait\<rparr>],
         action = [\<lparr>a_uri = ''u1'', a_ts = 5000, a_act = ActEnqueue\<rparr>],
         locked = False, logger = None\<rparr>)"
proof (intro conjI)
  show "fst (enqueue s now u) \<noteq> Inr (Some True)"
    by (simp add: enqueue_def enqueue_with_def Let_def split: sum.splits)
qed (simp_all add: enqueue_def enqueue_with_def init_store_def is_enqueued_def count_uri_def
        queue_insert_one_def action_insert_one_def ms_trunc_def)

text \<open>
  Claim C4. Entered while the lock is held elsewhere, \<open>dequeue\<close> gets \<open>False\<close> from
  \<open>acquire\<close>, searches and sets the entry to \<open>scrape\<close> all the same, and its \<open>release\<close>
  frees the lock it never obtained. When \<open>update_one\<close> is rejected by \<open>idx_ts\<close>, the
  exception leaves \<open>dequeue\<close> before \<open>release\<close>, and the lock stays locked.
\<close>

theorem dequeue_ignores_acquire_result:
  "mutex_acquire held_elsewhere = (False, held_elsewhere)
   \<and> dequeue held_elsewhere 7000 =
       (Inr (Some ''u1''),
        \<lparr>queue = [\<lparr>uri = ''u1'', ts = 5000, state = StScrape\<rparr>],
         action = [\<lparr>a_uri = ''u1'', a_ts = 7000, a_act = ActScrape\<rparr>],
         locked = False, logger = None\<rparr>)
   \<and> dequeue same_reading 7000 = (Inl DuplicateKeyError, same_reading\<lparr>locked := True\<rparr>)"
  by (simp add: dequeue_def dequeue_with_def held_elsewhere_def same_reading_def quiet_def
      eval_nat_numeral mutex_acquire_def mutex_release_def oldest_wait_def find_wait_def
      queue_update_one_def action_insert_one_def ms_trunc_def)

text \<open>
  Claim C8. On a queue with no entry, \<open>dequeue\<close> raises \<open>AttributeError\<close> when no logger
  was injected, and \<open>EmptyQueueException\<close> when one was: the result depends on the logger.
\<close>

theorem dequeue_empty_depends_on_logger:
  "fst (dequeue (s\<lparr>queue := [], logger := None\<rparr>) now) = Inl AttributeError
   \<and> fst (dequeue (s\<lparr>queue := [], logger := Some l\<rparr>) now) = Inl EmptyQueueException
   \<and> dequeue init_store 0 = (Inl AttributeError, init_store)
   \<and> dequeue (setLogger init_store Logger) 0
       = (Inl EmptyQueueException, setLogger init_store Logger)"
  by (simp add: dequeue_miss find_wait_def init_store_def setLogger_def)

text \<open>
  Claim C3, as amended. With a logger injected: when no attempt of \<open>dequeue\<close> obtains an
  entry, all ten attempts are made (\<open>tries_left\<close> ends at 0 and \<open>now\<close> ten seconds on), the
  lock is released, and the outcome follows the final count alone: \<open>EmptyQueueException\<close>
  when it finds no waiting entry, a return of \<open>None\<close> without an exception when it finds
  one. Run alone on a queue with no waiting entry, \<open>dequeue\<close> raises
  \<open>EmptyQueueException\<close> and leaves both collections as they were.
\<close>

theorem dequeue_miss_result:
  "(logger s = Some l \<and> fst (dequeue_loop env 10 now s) = None \<longrightarrow>
      (case dequeue_loop env 10 now s of (entry, now', left, s1) \<Rightarrow>
         left = 0 \<and> now' = now + td_seconds 10
         \<and> dequeue_with env s now =
             (if find_wait (env 0 (queue s1)) = [] then Inl EmptyQueueException else Inr None,
              s1\<lparr>queue := env 0 (queue s1), locked := False\<rparr>)))
   \<and> (logger s = Some l \<and> find_wait (queue s) = [] \<longrightarrow>
        dequeue_loop quiet 10 now s = (None, now + td_seconds 10, 0, s\<lparr>locked := True\<rparr>)
        \<and> dequeue s now = (Inl EmptyQueueException, s\<lparr>locked := False\<rparr>))"
proof (intro conjI impI)
  assume a: "logger s = Some l \<and> fst (dequeue_loop env 10 now s) = None"
  obtain entry now' left s1 where r: "dequeue_loop env 10 now s = (entry, now', left, s1)"
    by (metis prod_cases4)
  with a have r': "dequeue_loop env 10 now s = (None, now', left, s1)" by simp
  from dequeue_with_miss[OF r'] a
  show "case dequeue_loop env 10 now s of (entry, now', left, s1) \<Rightarrow>
         left = 0 \<and> now' = now + td_seconds 10
         \<and> dequeue_with env s now =
             (if find_wait (env 0 (queue s1)) = [] then Inl EmptyQueueException else Inr None,
              s1\<lparr>queue := env 0 (queue s1), locked := False\<rparr>)"
    by (simp add: r')
next
  assume a: "logger s = Some l \<and> find_wait (queue s) = []"
  then show "dequeue_loop quiet 10 now s = (None, now + td_seconds 10, 0, s\<lparr>locked := True\<rparr>)"
    using dequeue_loop_quiet_none[of s 9 now] by (simp add: eval_nat_numeral)
  from a show "dequeue s now = (Inl EmptyQueueException, s\<lparr>locked := False\<rparr>)"
    by (simp add: dequeue_miss)
qed

theorem dequeue_miss_result_witness:
  "logger logged_store = Some Logger
   \<and> fst (dequeue_loop late_producer 10 0 logged_store) = None
   \<and> fst (dequeue_with late_producer logged_store 0) = Inr None
   \<and> find_wait (queue logged_store) = []
   \<and> dequeue logged_store 0 = (Inl EmptyQueueException, logged_store)"
proof -
  have h1: "logger logged_store = Some Logger" by (simp add: logged_store_def)
  have h2: "fst (dequeue_loop late_producer 10 0 logged_store) = None"
    by (simp add: late_producer_def logged_store_def eval_nat_numeral
      mutex_acquire_def oldest_wait_def find_wait_def)
  have h3: "find_wait (queue logged_store) = []" by (simp add: logged_store_def find_wait_def)
  note t = dequeue_miss_result[of logged_store Logger late_producer 0]
  obtain entry now' left s1 where r: "dequeue_loop late_producer 10 0 logged_store = (entry, now', left, s1)"
    by (metis prod_cases4)
  have q: "queue s1 = []" using r
    by (simp add: late_producer_def logged_store_def eval_nat_numeral
      mutex_acquire_def oldest_wait_def find_wait_def) auto
  from t h1 h2 r q have c1: "fst (dequeue_with late_producer logged_store 0) = Inr None"
    by (simp add: late_producer_def find_wait_def)
  from t h1 h3 have c2: "dequeue logged_store 0 = (Inl EmptyQueueException, logged_store)"
    by (simp add: logged_store_def)
  from h1 h2 h3 c1 c2 show ?thesis by simp
qed

text \<open>
  The claim as stated fails: a waiting entry that arrives after the tenth attempt is seen
  by the final count, and \<open>dequeue\<close> returns \<open>None\<close> instead of raising.
\<close>

theorem dequeue_miss_returns_None:
  "fst (dequeue_loop late_producer 10 0 logged_store) = None
   \<and> dequeue_with late_producer logged_store 0 =
       (Inr None, \<lparr>queue = [\<lparr>uri = ''u1'', ts = 4000, state = StWait\<rparr>], action = [],
                   locked = False, logger = Some Logger\<rparr>)"
  by (simp add: dequeue_with_def late_producer_def logged_store_def eval_nat_numeral
      mutex_acquire_def mutex_release_def oldest_wait_def find_wait_def)

text \<open>
  Claim C5, as amended. When another client has inserted the identifier between the
  presence check and the insert, \<open>idx_uri\<close> rejects the insert and \<open>enqueue\<close> raises
  \<open>DuplicateKeyError\<close>; the rejected call writes to neither collection.
\<close>

theorem enqueue_race_propagates:
  "\<not> is_enqueued s u \<and> (\<exists>e \<in> set (env (queue s)). uri e = u) \<longrightarrow>
     enqueue_with env s now u = (Inl DuplicateKeyError, s\<lparr>queue := env (queue s)\<rparr>)"
  by (auto simp: enqueue_with_def queue_insert_one_def Let_def)

theorem enqueue_race_propagates_witness:
  "\<not> is_enqueued init_store ''u1''
   \<and> (\<exists>e \<in> set (racing_enqueue (queue init_store)). uri e = ''u1'')
   \<and> enqueue_with racing_enqueue init_store 5000 ''u1''
       = (Inl DuplicateKeyError, init_store\<lparr>queue := racing_enqueue (queue init_store)\<rparr>)"
proof -
  have h: "\<not> is_enqueued init_store ''u1''
           \<and> (\<exists>e \<in> set (racing_enqueue (queue init_store)). uri e = ''u1'')"
    by (simp add: racing_enqueue_def init_store_def is_enqueued_def count_uri_def)
  with enqueue_race_propagates[of init_store "''u1''" racing_enqueue 5000] show ?thesis by blast
qed

text \<open>
  The claim as stated fails: the rejected insert is not turned into a return of \<open>False\<close>.
\<close>

theorem enqueue_race_raises:
  "\<not> is_enqueued init_store ''u1''
   \<and> enqueue_with racing_enqueue init_store 5000 ''u1'' =
       (Inl DuplicateKeyError,
        \<lparr>queue = [\<lparr>uri = ''u1'', ts = 4000, state = StWait\<rparr>], action = [],
         locked = False, logger = None\<rparr>)"
  by (simp add: enqueue_with_def racing_enqueue_def init_store_def is_enqueued_def count_uri_def
      queue_insert_one_def ms_trunc_def)

text \<open>
  Claim C6, as amended. \<open>dequeue_finish\<close> removes the entry of the identifier whatever
  its state, so that a presence check afterwards is false, and with no entry for the
  identifier the queue is left as it was. It appends the \<open>finish\<close> record and returns
  normally when the log has no \<open>finish\<close> record of the identifier at the same reading as
  the store keeps it; otherwise it raises \<open>DuplicateKeyError\<close>, after the removal.
\<close>

theorem dequeue_finish_removes:
  "(distinct (map uri (queue s)) \<longrightarrow>
      queue (snd (dequeue_finish s now u)) = filter (\<lambda>e. uri e \<noteq> u) (queue s)
      \<and> \<not> is_enqueued (snd (dequeue_finish s now u)) u)
   \<and> dequeue_finish s now u =
       (if \<lparr>a_uri = u, a_ts = ms_trunc now, a_act = ActFinish\<rparr> \<in> set (action s)
        then (Inl DuplicateKeyError, s\<lparr>queue := delete_one u (queue s)\<rparr>)
        else (Inr (), s\<lparr>queue := delete_one u (queue s),
                        action := action s @ [\<lparr>a_uri = u, a_ts = ms_trunc now, a_act = ActFinish\<rparr>]\<rparr>))
   \<and> (\<not> is_enqueued s u \<longrightarrow> queue (snd (dequeue_finish s now u)) = queue s)"
proof (intro conjI impI)
  have q: "queue (snd (dequeue_finish s now u)) = delete_one u (queue s)"
    by (simp add: dequeue_finish_def Let_def action_insert_one_def)
  {
    assume d: "distinct (map uri (queue s))"
    show "queue (snd (dequeue_finish s now u)) = filter (\<lambda>e. uri e \<noteq> u) (queue s)"
      using q delete_one_distinct[OF d] by simp
    then show "\<not> is_enqueued (snd (dequeue_finish s now u)) u"
      by (simp add: is_enqueued_def count_uri_def filter_empty_conv)
  }
  show "dequeue_finish s now u =
       (if \<lparr>a_uri = u, a_ts = ms_trunc now, a_act = ActFinish\<rparr> \<in> set (action s)
        then (Inl DuplicateKeyError, s\<lparr>queue := delete_one u (queue s)\<rparr>)
        else (Inr (), s\<lparr>queue := delete_one u (queue s),
                        action := action s @ [\<lparr>a_uri = u, a_ts = ms_trunc now, a_act = ActFinish\<rparr>]\<rparr>))"
    by (simp add: dequeue_finish_def Let_def action_insert_one_def)
  {
    assume "\<not> is_enqueued s u"
    then have "count_uri u (queue s) = 0" by (simp add: is_enqueued_def)
    then show "queue (snd (dequeue_finish s now u)) = queue s"
      using q by (simp add: delete_one_absent)
  }
qed

theorem dequeue_finish_removes_witness:
  "distinct (map uri (queue in_progress))
   \<and> dequeue_finish in_progress 9000 ''u1'' = (Inr (), finished_once)
   \<and> \<not> is_enqueued (snd (dequeue_finish in_progress 9000 ''u1'')) ''u1''
   \<and> \<not> is_enqueued finished_once ''u1''
   \<and> queue (snd (dequeue_finish finished_once 9400 ''u1'')) = queue finished_once
   \<and> dequeue_finish finished_once 9400 ''u1'' = (Inl DuplicateKeyError, finished_once)
   \<and> fst (dequeue_finish finished_once 10000 ''u1'') = Inr ()"
proof -
  have h1: "distinct (map uri (queue in_progress))" by (simp add: in_progress_def)
  have h2: "\<not> is_enqueued finished_once ''u1''"
    by (simp add: finished_once_def is_enqueued_def count_uri_def)
  note t1 = dequeue_finish_removes[of in_progress 9000 "''u1''"]
  note t2 = dequeue_finish_removes[of finished_once 9400 "''u1''"]
  note t3 = dequeue_finish_removes[of finished_once 10000 "''u1''"]
  from t1 have c1: "dequeue_finish in_progress 9000 ''u1'' = (Inr (), finished_once)"
    by (simp add: in_progress_def finished_once_def ms_trunc_def)
  from t1 h1 have c2: "\<not> is_enqueued (snd (dequeue_finish in_progress 9000 ''u1'')) ''u1''"
    by blast
  from t2 h2 have c3: "queue (snd (dequeue_finish finished_once 9400 ''u1'')) = queue finished_once"
    by blast
  from t2 have c4: "dequeue_finish finished_once 9400 ''u1'' = (Inl DuplicateKeyError, finished_once)"
    by (simp add: finished_once_def ms_trunc_def)
  from t3 have c5: "fst (dequeue_finish finished_once 10000 ''u1'') = Inr ()"
    by (simp add: finished_once_def ms_trunc_def)
  from h1 h2 c1 c2 c3 c4 c5 show ?thesis by simp
qed

text \<open>
  The claim as stated fails: a second \<open>dequeue_finish\<close> of the identifier within the
  same millisecond finds no entry, and raises instead of returning.
\<close>

theorem dequeue_finish_twice_raises:
  "dequeue_finish in_progress 9000 ''u1'' = (Inr (), finished_once)
   \<and> \<not> is_enqueued finished_once ''u1''
   \<and> dequeue_finish finished_once 9400 ''u1'' = (Inl DuplicateKeyError, finished_once)"
  by (simp add: dequeue_finish_def in_progress_def finished_once_def action_insert_one_def
      is_enqueued_def count_uri_def ms_trunc_def)




end
